theory Spec2Isabelle
  imports Complex_Main "HOL-Library.AList" "HOL-Library.Word"
begin

section \<open>Python values used by \<open>src/models/graph.py\<close>\<close>

text \<open>
  A Python \<open>dict\<close> keeps its keys in insertion order; assigning to a key that is present
  replaces the value in place, assigning to a new key appends it. That is
  \<^const>\<open>AList.update\<close> on an association list; \<^const>\<open>map_of\<close> is the lookup.
  Part identifiers are strings, quantities and scrap rates are rationals that the code
  only stores. A time is a Python number: an integer (unbounded) or a float; of the
  floats, the model has those whose value is a 32-bit signed integer, such as \<open>3.0\<close>
  (\<open>PyFloat 3\<close>). Such a float is exact, compares with integers and floats by value, and
  prints as its integer followed by \<open>.0\<close>.
\<close>

type_synonym ('k, 'v) pydict = "('k \<times> 'v) list"

datatype error = KeyError string | OverflowError

datatype pynum = PyInt int | PyFloat "32 word"

text \<open>The value of a number: \<open><\<close>, \<open>>\<close> and \<open>==\<close> of Python compare numbers by value.\<close>

fun num_val :: "pynum \<Rightarrow> int" where
  "num_val (PyInt i) = i"
| "num_val (PyFloat w) = sint w"

text \<open>\<open>d.update(kw)\<close>: every item of \<open>kw\<close> is assigned into \<open>d\<close>, in order.\<close>

definition dict_update :: "('k, 'v) pydict \<Rightarrow> ('k, 'v) pydict \<Rightarrow> ('k, 'v) pydict" where
  "dict_update d kw = fold (\<lambda>(k, v). AList.update k v) kw d"

section \<open>The directed graph of the networkx library\<close>

text \<open>
  \<open>nx.DiGraph\<close> holds two insertion-ordered dictionaries over the same keys: the node
  table (node to attribute dictionary) and the adjacency (node to the dictionary of its
  successors, each with the edge's attribute dictionary). An edge attribute dictionary is
  kept as a dictionary, since \<open>add_edge\<close> on an existing edge merges the new attributes
  into the old ones. A node attribute dictionary is \<open>None\<close> when it is empty (a node
  created implicitly as the end of an edge) and \<open>Some a\<close> when it holds the attributes
  \<open>a\<close>; every \<open>add_node\<close> call of this file passes all attributes of its graph, so
  \<open>add_node\<close> on an existing node replaces them. Both operations test membership
  in the adjacency, as the library does.
\<close>

record ('na, 'ev) digraph =
  nodes :: "(string, 'na option) pydict"
  adj :: "(string, (string, (string, 'ev) pydict) pydict) pydict"

definition DiGraph :: "('na, 'ev) digraph" where
  "DiGraph = \<lparr>nodes = [], adj = []\<rparr>"

definition add_node :: "string \<Rightarrow> 'na \<Rightarrow> ('na, 'ev) digraph \<Rightarrow> ('na, 'ev) digraph" where
  "add_node n a G =
     \<lparr>nodes = AList.update n (Some a) (nodes G),
      adj = (if map_of (adj G) n = None then AList.update n [] (adj G) else adj G)\<rparr>"

text \<open>The implicit creation of an end node of \<open>add_edge\<close>, with no attributes.\<close>

definition touch_node :: "string \<Rightarrow> ('na, 'ev) digraph \<Rightarrow> ('na, 'ev) digraph" where
  "touch_node n G =
     (if map_of (adj G) n = None
      then \<lparr>nodes = AList.update n None (nodes G), adj = AList.update n [] (adj G)\<rparr>
      else G)"

definition add_edge ::
  "string \<Rightarrow> string \<Rightarrow> (string, 'ev) pydict \<Rightarrow> ('na, 'ev) digraph \<Rightarrow> ('na, 'ev) digraph" where
  "add_edge u v kw G =
     (let G1 = touch_node v (touch_node u G);
          row = (case map_of (adj G1) u of None \<Rightarrow> [] | Some r \<Rightarrow> r);
          datadict = (case map_of row v of None \<Rightarrow> [] | Some d \<Rightarrow> d)
      in G1\<lparr>adj := AList.update u (AList.update v (dict_update datadict kw) row) (adj G1)\<rparr>)"

text \<open>\<open>G.edges()\<close>: the pairs (source, target), by source in node order.\<close>

definition edges :: "('na, 'ev) digraph \<Rightarrow> (string \<times> string) list" where
  "edges G = concat (map (\<lambda>(u, row). map (\<lambda>(v, d). (u, v)) row) (adj G))"

text \<open>\<open>G[u][v]\<close>, the attribute dictionary of an edge, if the edge is there.\<close>

definition edge_attr :: "('na, 'ev) digraph \<Rightarrow> string \<Rightarrow> string \<Rightarrow> (string, 'ev) pydict option" where
  "edge_attr G u v = (case map_of (adj G) u of None \<Rightarrow> None | Some row \<Rightarrow> map_of row v)"

definition has_edge :: "('na, 'ev) digraph \<Rightarrow> string \<Rightarrow> string \<Rightarrow> bool" where
  "has_edge G u v = (edge_attr G u v \<noteq> None)"

text \<open>\<open>G[u][v].get(key)\<close>: one attribute of an edge.\<close>

definition edge_val :: "('na, 'ev) digraph \<Rightarrow> string \<Rightarrow> string \<Rightarrow> string \<Rightarrow> 'ev option" where
  "edge_val G u v key = (case edge_attr G u v of None \<Rightarrow> None | Some d \<Rightarrow> map_of d key)"

section \<open>The product structure graph\<close>

text \<open>
  A BOM record is a dictionary with the keys \<open>Assembly\<close>, \<open>Component\<close>, \<open>QuantityPer\<close>
  and \<open>Scrap\<close>, each of which may be missing (\<open>None\<close>).
\<close>

record bom_entry =
  Assembly :: "string option"
  Component :: "string option"
  QuantityPer :: "rat option"
  Scrap :: "rat option"

text \<open>\<open>node_roles[part].add(role)\<close>: fails when the part has no entry.\<close>

definition add_role ::
  "string \<Rightarrow> string \<Rightarrow> (string, string set) pydict \<Rightarrow> error + (string, string set) pydict" where
  "add_role part role node_roles =
     (case map_of node_roles part of
        None \<Rightarrow> Inl (KeyError part)
      | Some roles \<Rightarrow> Inr (AList.update part (insert role roles) node_roles))"

text \<open>First pass: the roles each part plays.\<close>

fun collect_roles ::
  "bom_entry list \<Rightarrow> (string, string set) pydict \<Rightarrow> error + (string, string set) pydict" where
  "collect_roles [] node_roles = Inr node_roles"
| "collect_roles (bom_entry # rest) node_roles =
     (case Assembly bom_entry of
        None \<Rightarrow> Inl (KeyError ''Assembly'')
      | Some assembly \<Rightarrow>
     (case Component bom_entry of
        None \<Rightarrow> Inl (KeyError ''Component'')
      | Some component \<Rightarrow>
     (let nr1 = (if map_of node_roles assembly = None
                 then AList.update assembly {} node_roles else node_roles);
          nr2 = (if map_of nr1 component = None
                 then AList.update component {} nr1 else nr1)
      in case add_role assembly ''assembly'' nr2 of
           Inl e \<Rightarrow> Inl e
         | Inr nr3 \<Rightarrow>
        (case add_role component ''component'' nr3 of
           Inl e \<Rightarrow> Inl e
         | Inr nr4 \<Rightarrow> collect_roles rest nr4))))"

text \<open>The nodes, each with its type.\<close>

definition add_typed_node ::
  "string \<times> string set \<Rightarrow> (string, rat) digraph \<Rightarrow> (string, rat) digraph" where
  "add_typed_node = (\<lambda>(node, roles) G.
     if ''assembly'' \<in> roles \<and> ''component'' \<in> roles then add_node node ''subassembly'' G
     else if ''assembly'' \<in> roles then add_node node ''assembly'' G
     else add_node node ''component'' G)"

text \<open>Second pass: the edges, from assembly to component.\<close>

fun add_bom_edges :: "bom_entry list \<Rightarrow> (string, rat) digraph \<Rightarrow> error + (string, rat) digraph" where
  "add_bom_edges [] G = Inr G"
| "add_bom_edges (bom_entry # rest) G =
     (case Assembly bom_entry of
        None \<Rightarrow> Inl (KeyError ''Assembly'')
      | Some assembly \<Rightarrow>
     (case Component bom_entry of
        None \<Rightarrow> Inl (KeyError ''Component'')
      | Some component \<Rightarrow>
     (case QuantityPer bom_entry of
        None \<Rightarrow> Inl (KeyError ''QuantityPer'')
      | Some quantity \<Rightarrow>
     (let scrap = (case Scrap bom_entry of None \<Rightarrow> 0 | Some s \<Rightarrow> s)
      in add_bom_edges rest
           (add_edge assembly component [(''quantity'', quantity), (''scrap'', scrap)] G)))))"

definition create_product_structure_graph :: "bom_entry list \<Rightarrow> error + (string, rat) digraph" where
  "create_product_structure_graph bom_data =
     (case collect_roles bom_data [] of
        Inl e \<Rightarrow> Inl e
      | Inr node_roles \<Rightarrow> add_bom_edges bom_data (fold add_typed_node node_roles DiGraph))"

section \<open>The time-space network\<close>

text \<open>
  An event is a dictionary with the keys \<open>node\<close>, \<open>time\<close> and \<open>event_type\<close>, each of
  which may be missing. A node of the network carries the attributes \<open>original_node\<close>,
  \<open>time\<close> and \<open>event_type\<close>; an edge carries \<open>lead_time\<close> (a number) and, on causal
  edges, \<open>relationship\<close> (a string).
\<close>

record event =
  node :: "string option"
  time :: "pynum option"
  event_type :: "string option"

record ts_attr =
  original_node :: string
  node_time :: pynum
  node_event_type :: string

text \<open>
  The value of an edge attribute: an integer, a string, or the float that a subtraction
  with a float operand returns (\<open>FloatDiff a b\<close> is the float \<open>a - b\<close>; its value is
  what IEEE arithmetic gives and is not computed here).
\<close>

datatype attr_val = Num int | FloatDiff pynum pynum | Str string

text \<open>
  \<open>a - b\<close>: the difference of two integers is an integer. With a float operand the
  integer operand is first converted to a float, which raises \<open>OverflowError\<close> when it
  rounds to 2 ^ 1024 or more, and the result is a float.
\<close>

definition float_overflows :: "int \<Rightarrow> bool" where
  "float_overflows i = (\<bar>i\<bar> \<ge> 2 ^ 1024 - 2 ^ 970)"

fun py_sub :: "pynum \<Rightarrow> pynum \<Rightarrow> error + attr_val" where
  "py_sub (PyInt a) (PyInt b) = Inr (Num (a - b))"
| "py_sub (PyInt a) (PyFloat w) =
     (if float_overflows a then Inl OverflowError else Inr (FloatDiff (PyInt a) (PyFloat w)))"
| "py_sub (PyFloat v) (PyInt b) =
     (if float_overflows b then Inl OverflowError else Inr (FloatDiff (PyFloat v) (PyInt b)))"
| "py_sub (PyFloat v) (PyFloat w) = Inr (FloatDiff (PyFloat v) (PyFloat w))"

type_synonym tsn = "(ts_attr, attr_val) digraph"

text \<open>\<open>str\<close> of a Python integer: decimal digits, with a minus sign when negative.\<close>

definition digit_char :: "nat \<Rightarrow> char" where
  "digit_char d = char_of (48 + d)"

fun str_nat :: "nat \<Rightarrow> string" where
  "str_nat n = (if n < 10 then [digit_char n] else str_nat (n div 10) @ [digit_char (n mod 10)])"

declare str_nat.simps [simp del]

definition str_int :: "int \<Rightarrow> string" where
  "str_int i = (if i < 0 then CHR ''-'' # str_nat (nat (- i)) else str_nat (nat i))"

text \<open>The text of a number in an f-string: \<open>3\<close> for the integer, \<open>3.0\<close> for the float.\<close>

fun str_num :: "pynum \<Rightarrow> string" where
  "str_num (PyInt i) = str_int i"
| "str_num (PyFloat w) = str_int (sint w) @ ''.0''"

text \<open>The identifier of a time-space node, \<open>f"{node}_{time}"\<close>.\<close>

definition ts_key :: "string \<Rightarrow> pynum \<Rightarrow> string" where
  "ts_key n t = n @ ''_'' @ str_num t"

text \<open>
  \<open>sorted(xs, key=f)\<close>: the key of every element is computed first, in order (and may
  raise), then the elements are sorted by key, stably; the keys are numbers and compare
  by value.
\<close>

fun keyed :: "('a \<Rightarrow> error + pynum) \<Rightarrow> 'a list \<Rightarrow> error + (pynum \<times> 'a) list" where
  "keyed f [] = Inr []"
| "keyed f (x # xs) =
     (case f x of
        Inl e \<Rightarrow> Inl e
      | Inr k \<Rightarrow> (case keyed f xs of Inl e \<Rightarrow> Inl e | Inr kxs \<Rightarrow> Inr ((k, x) # kxs)))"

definition sorted_by :: "('a \<Rightarrow> error + pynum) \<Rightarrow> 'a list \<Rightarrow> error + 'a list" where
  "sorted_by f xs =
     (case keyed f xs of
        Inl e \<Rightarrow> Inl e
      | Inr kxs \<Rightarrow> Inr (map snd (sort_key (\<lambda>p. num_val (fst p)) kxs)))"

text \<open>\<open>x['time']\<close> on an event.\<close>

definition event_time :: "event \<Rightarrow> error + pynum" where
  "event_time x = (case time x of None \<Rightarrow> Inl (KeyError ''time'') | Some t \<Rightarrow> Inr t)"

text \<open>The time-space nodes, one \<open>add_node\<close> per event.\<close>

fun add_event_nodes :: "event list \<Rightarrow> tsn \<Rightarrow> error + tsn" where
  "add_event_nodes [] TSN = Inr TSN"
| "add_event_nodes (event # rest) TSN =
     (case node event of
        None \<Rightarrow> Inl (KeyError ''node'')
      | Some n \<Rightarrow>
     (case time event of
        None \<Rightarrow> Inl (KeyError ''time'')
      | Some t \<Rightarrow>
     (case event_type event of
        None \<Rightarrow> Inl (KeyError ''event_type'')
      | Some et \<Rightarrow>
          add_event_nodes rest
            (add_node (ts_key n t)
               \<lparr>original_node = n, node_time = t, node_event_type = et\<rparr> TSN))))"

text \<open>\<open>TSN.nodes[x]['time']\<close>.\<close>

definition ts_node_time :: "tsn \<Rightarrow> string \<Rightarrow> error + pynum" where
  "ts_node_time TSN x =
     (case map_of (nodes TSN) x of
        None \<Rightarrow> Inl (KeyError x)
      | Some None \<Rightarrow> Inl (KeyError ''time'')
      | Some (Some a) \<Rightarrow> Inr (node_time a))"

text \<open>
  \<open>nodes_by_original\<close>: the loop runs over the keys of the node table and reads each
  key's attributes from the same table, that is, over the items of the table.
\<close>

fun group_by_original ::
  "(string, ts_attr option) pydict \<Rightarrow> (string, string list) pydict
   \<Rightarrow> error + (string, string list) pydict" where
  "group_by_original [] nodes_by_original = Inr nodes_by_original"
| "group_by_original ((ts_node, attrs) # rest) nodes_by_original =
     (case attrs of
        None \<Rightarrow> Inl (KeyError ''original_node'')
      | Some a \<Rightarrow>
     (let original = original_node a;
          nbo1 = (if map_of nodes_by_original original = None
                  then AList.update original [] nodes_by_original else nodes_by_original)
      in case map_of nbo1 original of
           None \<Rightarrow> Inl (KeyError original)
         | Some ts_nodes \<Rightarrow>
             group_by_original rest (AList.update original (ts_nodes @ [ts_node]) nbo1)))"

text \<open>The chronological edges of one original node: \<open>for i in range(len(...) - 1)\<close>.\<close>

fun link_consecutive :: "string list \<Rightarrow> tsn \<Rightarrow> error + tsn" where
  "link_consecutive (from_node # to_node # rest) TSN =
     (case ts_node_time TSN from_node of
        Inl e \<Rightarrow> Inl e
      | Inr from_time \<Rightarrow>
     (case ts_node_time TSN to_node of
        Inl e \<Rightarrow> Inl e
      | Inr to_time \<Rightarrow>
     (case py_sub to_time from_time of
        Inl e \<Rightarrow> Inl e
      | Inr lead_time \<Rightarrow>
          link_consecutive (to_node # rest)
            (add_edge from_node to_node [(''lead_time'', lead_time)] TSN))))"
| "link_consecutive [from_node] TSN = Inr TSN"
| "link_consecutive [] TSN = Inr TSN"

fun link_chronological :: "(string, string list) pydict \<Rightarrow> tsn \<Rightarrow> error + tsn" where
  "link_chronological [] TSN = Inr TSN"
| "link_chronological ((original, ts_nodes) # rest) TSN =
     (case sorted_by (ts_node_time TSN) ts_nodes of
        Inl e \<Rightarrow> Inl e
      | Inr sorted_ts_nodes \<Rightarrow>
     (case link_consecutive sorted_ts_nodes TSN of
        Inl e \<Rightarrow> Inl e
      | Inr TSN' \<Rightarrow> link_chronological rest TSN'))"

text \<open>The inner search: the first \<open>v_node\<close> with a time after \<open>u_time\<close>, then \<open>break\<close>.\<close>

fun next_after :: "tsn \<Rightarrow> pynum \<Rightarrow> string list \<Rightarrow> error + string option" where
  "next_after TSN u_time [] = Inr None"
| "next_after TSN u_time (v_node # rest) =
     (case ts_node_time TSN v_node of
        Inl e \<Rightarrow> Inl e
      | Inr v_time \<Rightarrow>
          if num_val v_time > num_val u_time then Inr (Some v_node)
          else next_after TSN u_time rest)"

text \<open>
  The causal edges of one product edge. \<open>if next_v_node:\<close> is false for \<open>None\<close> and
  for the empty string.
\<close>

fun link_u_nodes :: "string list \<Rightarrow> string list \<Rightarrow> tsn \<Rightarrow> error + tsn" where
  "link_u_nodes [] v_ts_nodes TSN = Inr TSN"
| "link_u_nodes (u_node # rest) v_ts_nodes TSN =
     (case ts_node_time TSN u_node of
        Inl e \<Rightarrow> Inl e
      | Inr u_time \<Rightarrow>
     (case next_after TSN u_time v_ts_nodes of
        Inl e \<Rightarrow> Inl e
      | Inr found \<Rightarrow>
     (case found of
        None \<Rightarrow> link_u_nodes rest v_ts_nodes TSN
      | Some next_v_node \<Rightarrow>
          if next_v_node = [] then link_u_nodes rest v_ts_nodes TSN
          else (case ts_node_time TSN next_v_node of
                  Inl e \<Rightarrow> Inl e
                | Inr v_time \<Rightarrow>
                   (case py_sub v_time u_time of
                      Inl e \<Rightarrow> Inl e
                    | Inr lead_time \<Rightarrow>
                        link_u_nodes rest v_ts_nodes
                          (add_edge u_node next_v_node
                             [(''lead_time'', lead_time),
                              (''relationship'', Str ''assembly-component'')] TSN))))))"

text \<open>\<open>nodes_by_original.get(u, [])\<close>.\<close>

definition get_list :: "(string, string list) pydict \<Rightarrow> string \<Rightarrow> string list" where
  "get_list d k = (case map_of d k of None \<Rightarrow> [] | Some l \<Rightarrow> l)"

fun link_causal ::
  "(string \<times> string) list \<Rightarrow> (string, string list) pydict \<Rightarrow> tsn \<Rightarrow> error + tsn" where
  "link_causal [] nodes_by_original TSN = Inr TSN"
| "link_causal ((u, v) # rest) nodes_by_original TSN =
     (case sorted_by (ts_node_time TSN) (get_list nodes_by_original u) of
        Inl e \<Rightarrow> Inl e
      | Inr u_ts_nodes \<Rightarrow>
     (case sorted_by (ts_node_time TSN) (get_list nodes_by_original v) of
        Inl e \<Rightarrow> Inl e
      | Inr v_ts_nodes \<Rightarrow>
     (case link_u_nodes u_ts_nodes v_ts_nodes TSN of
        Inl e \<Rightarrow> Inl e
      | Inr TSN' \<Rightarrow> link_causal rest nodes_by_original TSN')))"

definition create_time_space_network ::
  "('na, 'ev) digraph \<Rightarrow> event list \<Rightarrow> error + tsn" where
  "create_time_space_network product_graph events =
     (case sorted_by event_time events of
        Inl e \<Rightarrow> Inl e
      | Inr sorted_events \<Rightarrow>
     (case add_event_nodes sorted_events DiGraph of
        Inl e \<Rightarrow> Inl e
      | Inr TSN0 \<Rightarrow>
     (case group_by_original (nodes TSN0) [] of
        Inl e \<Rightarrow> Inl e
      | Inr nodes_by_original \<Rightarrow>
     (case link_chronological nodes_by_original TSN0 of
        Inl e \<Rightarrow> Inl e
      | Inr TSN1 \<Rightarrow> link_causal (edges product_graph) nodes_by_original TSN1))))"

section \<open>Notions used in the statements\<close>

text \<open>A part is an assembly (a component) of the records when some record names it so;
  \<open>pair_records\<close> are the records of one (assembly, component) pair, in input
  order.\<close>

definition is_assembly :: "bom_entry list \<Rightarrow> string \<Rightarrow> bool" where
  "is_assembly bom_data p = (\<exists>r \<in> set bom_data. Assembly r = Some p)"

definition is_component :: "bom_entry list \<Rightarrow> string \<Rightarrow> bool" where
  "is_component bom_data p = (\<exists>r \<in> set bom_data. Component r = Some p)"

definition pair_records :: "string \<Rightarrow> string \<Rightarrow> bom_entry list \<Rightarrow> bom_entry list" where
  "pair_records a c bom_data = filter (\<lambda>r. Assembly r = Some a \<and> Component r = Some c) bom_data"



text \<open>\<open>ts_node T x orig t\<close>: x is a node of the network with \<open>original_node = orig\<close>
  and the integer t as its \<open>time\<close>.\<close>

definition ts_node :: "tsn \<Rightarrow> string \<Rightarrow> string \<Rightarrow> int \<Rightarrow> bool" where
  "ts_node T x orig t =
     (case map_of (nodes T) x of
        Some (Some a) \<Rightarrow> original_node a = orig \<and> node_time a = PyInt t
      | _ \<Rightarrow> False)"

text \<open>The nodes of one original node in the order of the node table, the value of the
  time of a node (0 for a key that is not in the table or has no attributes, which the statements never
  ask for), and the chain of an original node: its nodes sorted by ascending time.\<close>

definition has_original :: "string \<Rightarrow> string \<times> ts_attr option \<Rightarrow> bool" where
  "has_original orig p = (case snd p of None \<Rightarrow> False | Some a \<Rightarrow> original_node a = orig)"

definition group_of :: "(string, ts_attr option) pydict \<Rightarrow> string \<Rightarrow> string list" where
  "group_of N orig = map fst (filter (has_original orig) N)"

definition node_tm :: "(string, ts_attr option) pydict \<Rightarrow> string \<Rightarrow> int" where
  "node_tm N x = (case map_of N x of Some (Some a) \<Rightarrow> num_val (node_time a) | _ \<Rightarrow> 0)"

definition chain :: "tsn \<Rightarrow> string \<Rightarrow> string list" where
  "chain T orig = sort_key (node_tm (nodes T)) (group_of (nodes T) orig)"




text \<open>The invariant of the library: the ends of every edge are nodes of the graph.\<close>

definition edge_ends_are_nodes :: "('na, 'ev) digraph \<Rightarrow> bool" where
  "edge_ends_are_nodes G =
     (\<forall>e \<in> set (edges G). map_of (nodes G) (fst e) \<noteq> None \<and> map_of (nodes G) (snd e) \<noteq> None)"

section \<open>Scenarios of the specification\<close>

text \<open>Scenarios A and B (three records; two records of the same pair), scenario A with its
  records reversed, scenario C (one product edge A to B, three events), scenario D (two events with the
  same node and time), and the events of scenario C with two events of a part X that the
  product graph does not have.\<close>

definition scenario_A_records :: "bom_entry list" where
  "scenario_A_records =
     [\<lparr>Assembly = Some ''A'', Component = Some ''B'', QuantityPer = Some 2, Scrap = Some (1/10)\<rparr>,
      \<lparr>Assembly = Some ''A'', Component = Some ''C'', QuantityPer = Some 1, Scrap = Some 0\<rparr>,
      \<lparr>Assembly = Some ''B'', Component = Some ''D'', QuantityPer = Some 3, Scrap = Some (5/100)\<rparr>]"

definition scenario_A_graph :: "(string, rat) digraph" where
  "scenario_A_graph =
     \<lparr>nodes = [(''A'', Some ''assembly''), (''B'', Some ''subassembly''),
               (''C'', Some ''component''), (''D'', Some ''component'')],
      adj = [(''A'', [(''B'', [(''quantity'', 2), (''scrap'', 1/10)]),
                      (''C'', [(''quantity'', 1), (''scrap'', 0)])]),
             (''B'', [(''D'', [(''quantity'', 3), (''scrap'', 1/20)])]),
             (''C'', []), (''D'', [])]\<rparr>"

definition scenario_A_reversed_graph :: "(string, rat) digraph" where
  "scenario_A_reversed_graph =
     \<lparr>nodes = [(''B'', Some ''subassembly''), (''D'', Some ''component''),
               (''A'', Some ''assembly''), (''C'', Some ''component'')],
      adj = [(''B'', [(''D'', [(''quantity'', 3), (''scrap'', 1/20)])]),
             (''D'', []),
             (''A'', [(''C'', [(''quantity'', 1), (''scrap'', 0)]),
                      (''B'', [(''quantity'', 2), (''scrap'', 1/10)])]),
             (''C'', [])]\<rparr>"

definition scenario_B_records :: "bom_entry list" where
  "scenario_B_records =
     [\<lparr>Assembly = Some ''A'', Component = Some ''B'', QuantityPer = Some 2, Scrap = Some (1/10)\<rparr>,
      \<lparr>Assembly = Some ''A'', Component = Some ''B'', QuantityPer = Some 5, Scrap = Some (2/10)\<rparr>]"

definition scenario_B_graph :: "(string, rat) digraph" where
  "scenario_B_graph =
     \<lparr>nodes = [(''A'', Some ''assembly''), (''B'', Some ''component'')],
      adj = [(''A'', [(''B'', [(''quantity'', 5), (''scrap'', 1/5)])]), (''B'', [])]\<rparr>"








section \<open>Notions used in the proofs\<close>

text \<open>The adjacency has one row per node and one entry per edge; the roles the first pass
  collects for a part, and the type the builder derives from a role set.\<close>

definition adj_distinct :: "('na, 'ev) digraph \<Rightarrow> bool" where
  "adj_distinct G = (distinct (map fst (adj G)) \<and> (\<forall>p \<in> set (adj G). distinct (map fst (snd p))))"

definition role_set :: "bom_entry list \<Rightarrow> string \<Rightarrow> string set" where
  "role_set bom_data p =
     (if is_assembly bom_data p then {''assembly''} else {}) \<union>
     (if is_component bom_data p then {''component''} else {})"

definition node_type :: "string set \<Rightarrow> string" where
  "node_type roles =
     (if ''assembly'' \<in> roles \<and> ''component'' \<in> roles then ''subassembly''
      else if ''assembly'' \<in> roles then ''assembly'' else ''component'')"



















section \<open>Facts about the graph operations\<close>

lemma map_of_dict_update2:
  "k1 \<noteq> k2 \<Longrightarrow> map_of (dict_update d [(k1, v1), (k2, v2)]) key =
     (if key = k2 then Some v2 else if key = k1 then Some v1 else map_of d key)"
  by (simp add: dict_update_def update_conv')


lemma edge_attr_touch_node: "edge_attr (touch_node n G) x y = edge_attr G x y"
  by (simp add: edge_attr_def touch_node_def update_conv')

lemma edge_attr_add_node: "edge_attr (add_node n a G) x y = edge_attr G x y"
  by (simp add: edge_attr_def add_node_def update_conv')

lemma edge_attr_add_edge:
  "edge_attr (add_edge u v kw G) x y =
     (if x = u \<and> y = v
      then Some (dict_update (case edge_attr G u v of None \<Rightarrow> [] | Some d \<Rightarrow> d) kw)
      else edge_attr G x y)"
proof -
  let ?G1 = "touch_node v (touch_node u G)"
  have e1: "edge_attr ?G1 = edge_attr G"
    by (simp add: edge_attr_touch_node fun_eq_iff)
  show ?thesis
    using e1 unfolding add_edge_def Let_def edge_attr_def fun_eq_iff
    by (auto simp add: update_conv' touch_node_def split: option.splits)
qed

lemma edge_attr_DiGraph: "edge_attr DiGraph x y = None"
  by (simp add: edge_attr_def DiGraph_def)

lemma touch_node_known: "map_of (adj G) n \<noteq> None \<Longrightarrow> touch_node n G = G"
  by (auto simp add: touch_node_def)

lemma adj_dom_touch_node:
  "map_of (adj (touch_node n G)) x = None \<longleftrightarrow> x \<noteq> n \<and> map_of (adj G) x = None"
  by (simp add: touch_node_def update_conv')

lemma adj_dom_add_node:
  "map_of (adj (add_node n a G)) x = None \<longleftrightarrow> x \<noteq> n \<and> map_of (adj G) x = None"
  by (simp add: add_node_def update_conv')

lemma adj_dom_add_edge:
  "map_of (adj (add_edge u v kw G)) x = None \<longleftrightarrow> x \<noteq> u \<and> x \<noteq> v \<and> map_of (adj G) x = None"
  by (auto simp add: add_edge_def Let_def update_conv' adj_dom_touch_node)

lemma nodes_add_edge_known:
  "map_of (adj G) u \<noteq> None \<Longrightarrow> map_of (adj G) v \<noteq> None \<Longrightarrow> nodes (add_edge u v kw G) = nodes G"
  by (simp add: add_edge_def Let_def touch_node_known)

lemma nodes_add_node: "map_of (nodes (add_node n a G)) x = (if x = n then Some (Some a) else map_of (nodes G) x)"
  by (simp add: add_node_def update_conv')

lemma set_update_cases:
  "p \<in> set (AList.update k v al) \<Longrightarrow> p = (k, v) \<or> p \<in> set al"
  by (induction al) (auto split: if_splits)

lemma adj_distinct_DiGraph: "adj_distinct DiGraph"
  by (simp add: adj_distinct_def DiGraph_def)

lemma adj_distinct_add_node: "adj_distinct G \<Longrightarrow> adj_distinct (add_node n a G)"
  by (auto simp add: adj_distinct_def add_node_def distinct_update dest!: set_update_cases)

lemma adj_distinct_touch_node: "adj_distinct G \<Longrightarrow> adj_distinct (touch_node n G)"
  by (auto simp add: adj_distinct_def touch_node_def distinct_update dest!: set_update_cases)

lemma adj_distinct_add_edge:
  assumes "adj_distinct G"
  shows "adj_distinct (add_edge u v kw G)"
proof -
  let ?G1 = "touch_node v (touch_node u G)"
  let ?row = "case map_of (adj ?G1) u of None \<Rightarrow> [] | Some r \<Rightarrow> r"
  have g1: "adj_distinct ?G1"
    using assms by (simp add: adj_distinct_touch_node)
  have "distinct (map fst ?row)"
  proof (cases "map_of (adj ?G1) u")
    case None
    then show ?thesis by simp
  next
    case (Some r)
    then have "(u, r) \<in> set (adj ?G1)" by (rule map_of_SomeD)
    with g1 Some show ?thesis by (force simp add: adj_distinct_def)
  qed
  then have r: "distinct (map fst (AList.update v d ?row))" for d
    by (rule distinct_update)
  show ?thesis
    using g1 r unfolding add_edge_def Let_def adj_distinct_def
    by (auto simp add: distinct_update dest!: set_update_cases)
qed

lemma distinct_edge_pairs:
  "distinct (map fst al) \<Longrightarrow> \<forall>p \<in> set al. distinct (map fst (snd p)) \<Longrightarrow>
   distinct (concat (map (\<lambda>(u, row). map (\<lambda>(v, d). (u, v)) row) al))"
proof (induction al)
  case Nil
  then show ?case by simp
next
  case (Cons p al)
  obtain u row where p: "p = (u, row)" by (cases p)
  have "distinct (map (\<lambda>(v, d). (u, v)) row)"
    using Cons.prems(2) p by (simp add: distinct_map inj_on_def split_beta) 
  moreover have "distinct (concat (map (\<lambda>(u, row). map (\<lambda>(v, d). (u, v)) row) al))"
    using Cons by simp
  moreover have "set (map (\<lambda>(v, d). (u, v)) row) \<inter> set (concat (map (\<lambda>(u, row). map (\<lambda>(v, d). (u, v)) row) al)) = {}"
    using Cons.prems(1) p by force
  ultimately show ?case using p by simp
qed

lemma distinct_edges: "adj_distinct G \<Longrightarrow> distinct (edges G)"
  unfolding edges_def adj_distinct_def by (rule distinct_edge_pairs) auto

lemma set_edges: "adj_distinct G \<Longrightarrow> (u, v) \<in> set (edges G) \<longleftrightarrow> has_edge G u v"
proof -
  assume a: "adj_distinct G"
  have "(u, v) \<in> set (edges G) \<longleftrightarrow> (\<exists>row. (u, row) \<in> set (adj G) \<and> v \<in> fst ` set row)"
    unfolding edges_def by force
  also have "\<dots> \<longleftrightarrow> (\<exists>row. map_of (adj G) u = Some row \<and> map_of row v \<noteq> None)"
    using a by (auto simp add: adj_distinct_def map_of_eq_None_iff)
  also have "\<dots> \<longleftrightarrow> has_edge G u v"
    by (auto simp add: has_edge_def edge_attr_def split: option.splits)
  finally show ?thesis .
qed

lemma role_set_Nil: "role_set [] p = {}"
  by (simp add: role_set_def is_assembly_def is_component_def)

lemma role_set_Cons:
  "Assembly r = Some a \<Longrightarrow> Component r = Some c \<Longrightarrow>
   role_set (r # rs) p =
     (if p = a then {''assembly''} else {}) \<union> (if p = c then {''component''} else {}) \<union> role_set rs p"
  by (auto simp add: role_set_def is_assembly_def is_component_def)

lemma collect_roles_step:
  assumes "Assembly r = Some a" "Component r = Some c"
  shows "\<exists>nr4. collect_roles (r # rs) nr = collect_roles rs nr4
     \<and> (\<forall>p. map_of nr4 p =
           (if p = a \<or> p = c
            then Some ((case map_of nr p of None \<Rightarrow> {} | Some s \<Rightarrow> s)
                  \<union> (if p = a then {''assembly''} else {}) \<union> (if p = c then {''component''} else {}))
            else map_of nr p))
     \<and> (distinct (map fst nr) \<longrightarrow> distinct (map fst nr4))"
  using assms
  by (auto simp add: add_role_def Let_def update_conv' distinct_update split: option.splits)

lemma collect_roles_map_of:
  "collect_roles rs nr = Inr nr' \<Longrightarrow>
   map_of nr' p =
     (if map_of nr p = None \<and> role_set rs p = {} then None
      else Some ((case map_of nr p of None \<Rightarrow> {} | Some s \<Rightarrow> s) \<union> role_set rs p))"
proof (induction rs arbitrary: nr)
  case Nil
  then show ?case by (auto simp add: role_set_Nil split: option.splits)
next
  case (Cons r rs)
  from Cons.prems obtain a where a: "Assembly r = Some a"
    by (cases "Assembly r") auto
  from Cons.prems a obtain c where c: "Component r = Some c"
    by (cases "Component r") auto
  from collect_roles_step [OF a c, of rs nr] obtain nr4 where
    s: "collect_roles (r # rs) nr = collect_roles rs nr4" and
    m: "\<And>p. map_of nr4 p =
           (if p = a \<or> p = c
            then Some ((case map_of nr p of None \<Rightarrow> {} | Some s \<Rightarrow> s)
                  \<union> (if p = a then {''assembly''} else {}) \<union> (if p = c then {''component''} else {}))
            else map_of nr p)"
    by blast
  from s Cons.prems have "collect_roles rs nr4 = Inr nr'" by simp
  from Cons.IH [OF this] show ?case
    unfolding m role_set_Cons [OF a c] by (auto split: option.splits)
qed

lemma collect_roles_distinct:
  "collect_roles rs nr = Inr nr' \<Longrightarrow> distinct (map fst nr) \<Longrightarrow> distinct (map fst nr')"
proof (induction rs arbitrary: nr)
  case Nil
  then show ?case by simp
next
  case (Cons r rs)
  from Cons.prems obtain a where a: "Assembly r = Some a"
    by (cases "Assembly r") auto
  from Cons.prems a obtain c where c: "Component r = Some c"
    by (cases "Component r") auto
  from collect_roles_step [OF a c, of rs nr] obtain nr4 where
    s: "collect_roles (r # rs) nr = collect_roles rs nr4" and
    d: "distinct (map fst nr) \<longrightarrow> distinct (map fst nr4)"
    by blast
  from s Cons.prems have "collect_roles rs nr4 = Inr nr'" by simp
  from Cons.IH [OF this] d Cons.prems(2) show ?case by simp
qed

lemma collect_roles_fails:
  "collect_roles rs nr = Inl e \<Longrightarrow> e = KeyError ''Assembly'' \<or> e = KeyError ''Component''"
proof (induction rs arbitrary: nr)
  case Nil
  then show ?case by simp
next
  case (Cons r rs)
  show ?case
  proof (cases "Assembly r")
    case None
    with Cons.prems show ?thesis by simp
  next
    case (Some a)
    show ?thesis
    proof (cases "Component r")
      case None
      with Some Cons.prems show ?thesis by simp
    next
      case c: (Some c)
      from collect_roles_step [OF Some c, of rs nr] Cons show ?thesis by metis
    qed
  qed
qed

lemma collect_roles_succeeds:
  "(\<exists>nr'. collect_roles rs nr = Inr nr') \<longleftrightarrow> (\<forall>r \<in> set rs. Assembly r \<noteq> None \<and> Component r \<noteq> None)"
proof (induction rs arbitrary: nr)
  case Nil
  then show ?case by simp
next
  case (Cons r rs)
  show ?case
  proof (cases "Assembly r")
    case None
    then show ?thesis by simp
  next
    case (Some a)
    show ?thesis
    proof (cases "Component r")
      case None
      with Some show ?thesis by simp
    next
      case c: (Some c)
      from collect_roles_step [OF Some c, of rs nr] obtain nr4 where
        s: "collect_roles (r # rs) nr = collect_roles rs nr4" by blast
      show ?thesis unfolding s using Cons.IH [of nr4] Some c by simp
    qed
  qed
qed

lemma add_typed_node_eq: "add_typed_node (n, roles) G = add_node n (node_type roles) G"
  by (simp add: add_typed_node_def node_type_def)

lemma fold_add_typed_node_nodes:
  "distinct (map fst nr) \<Longrightarrow>
   map_of (nodes (fold add_typed_node nr G)) p =
     (case map_of nr p of None \<Rightarrow> map_of (nodes G) p | Some roles \<Rightarrow> Some (Some (node_type roles)))"
proof (induction nr arbitrary: G)
  case Nil
  then show ?case by simp
next
  case (Cons q nr)
  obtain n roles where q: "q = (n, roles)" by (cases q)
  have "map_of nr n = None"
    using Cons.prems q by (simp add: map_of_eq_None_iff)
  then show ?case
    using Cons q by (auto simp add: add_typed_node_eq nodes_add_node split: option.splits)
qed

lemma fold_add_typed_node_adj:
  "map_of (adj (fold add_typed_node nr G)) p = None \<longleftrightarrow> map_of nr p = None \<and> map_of (adj G) p = None"
proof (induction nr arbitrary: G)
  case Nil
  then show ?case by simp
next
  case (Cons q nr)
  obtain n roles where q: "q = (n, roles)" by (cases q)
  show ?case
    using Cons q by (auto simp add: add_typed_node_eq adj_dom_add_node)
qed

lemma fold_add_typed_node_edge_attr:
  "edge_attr (fold add_typed_node nr G) x y = edge_attr G x y"
  by (induction nr arbitrary: G) (auto simp add: add_typed_node_eq edge_attr_add_node)

lemma fold_add_typed_node_distinct:
  "adj_distinct G \<Longrightarrow> adj_distinct (fold add_typed_node nr G)"
  by (induction nr arbitrary: G) (auto simp add: add_typed_node_eq adj_distinct_add_node)

lemma fold_add_typed_node_keys:
  "distinct (map fst (nodes G)) \<Longrightarrow> distinct (map fst (nodes (fold add_typed_node nr G)))"
  by (induction nr arbitrary: G) (auto simp add: add_typed_node_eq add_node_def distinct_update)

lemma edge_val_add_edge2:
  "k1 \<noteq> k2 \<Longrightarrow> edge_val (add_edge u v [(k1, v1), (k2, v2)] G) x y key =
     (if x = u \<and> y = v
      then (if key = k2 then Some v2 else if key = k1 then Some v1 else edge_val G u v key)
      else edge_val G x y key)"
  by (auto simp add: edge_val_def edge_attr_add_edge map_of_dict_update2 split: option.splits)


lemma has_edge_add_edge:
  "has_edge (add_edge u v kw G) x y \<longleftrightarrow> (x = u \<and> y = v) \<or> has_edge G x y"
  by (auto simp add: has_edge_def edge_attr_add_edge)

lemma add_bom_edges_Inr_Cons:
  assumes "add_bom_edges (r # rs) G = Inr G'"
  obtains a c q where "Assembly r = Some a" "Component r = Some c" "QuantityPer r = Some q"
    "add_bom_edges rs (add_edge a c [(''quantity'', q),
        (''scrap'', case Scrap r of None \<Rightarrow> 0 | Some s \<Rightarrow> s)] G) = Inr G'"
  using assms by (auto simp add: Let_def split: option.splits)

lemma add_bom_edges_nodes:
  "add_bom_edges rs G = Inr G' \<Longrightarrow>
   \<forall>r \<in> set rs. \<forall>p. Assembly r = Some p \<or> Component r = Some p \<longrightarrow> map_of (adj G) p \<noteq> None \<Longrightarrow>
   nodes G' = nodes G"
proof (induction rs arbitrary: G)
  case Nil
  then show ?case by simp
next
  case (Cons r rs)
  from Cons.prems(1) obtain a c q where
    r: "Assembly r = Some a" "Component r = Some c" and
    s: "add_bom_edges rs (add_edge a c [(''quantity'', q),
        (''scrap'', case Scrap r of None \<Rightarrow> 0 | Some s \<Rightarrow> s)] G) = Inr G'"
    by (rule add_bom_edges_Inr_Cons) auto
  have k: "map_of (adj G) a \<noteq> None" "map_of (adj G) c \<noteq> None"
    using Cons.prems(2) r by auto
  have "nodes G' = nodes (add_edge a c [(''quantity'', q),
        (''scrap'', case Scrap r of None \<Rightarrow> 0 | Some s \<Rightarrow> s)] G)"
    using s
  proof (rule Cons.IH)
    show "\<forall>e\<in>set rs. \<forall>p. Assembly e = Some p \<or> Component e = Some p \<longrightarrow>
       map_of (adj (add_edge a c [(''quantity'', q),
        (''scrap'', case Scrap r of None \<Rightarrow> 0 | Some s \<Rightarrow> s)] G)) p \<noteq> None"
      using Cons.prems(2) by (simp add: adj_dom_add_edge)
  qed
  with k show ?case by (simp add: nodes_add_edge_known)
qed

lemma add_bom_edges_distinct:
  "add_bom_edges rs G = Inr G' \<Longrightarrow> adj_distinct G \<Longrightarrow> adj_distinct G'"
proof (induction rs arbitrary: G)
  case Nil
  then show ?case by simp
next
  case (Cons r rs)
  from Cons.prems(1) obtain a c q where
    s: "add_bom_edges rs (add_edge a c [(''quantity'', q),
        (''scrap'', case Scrap r of None \<Rightarrow> 0 | Some s \<Rightarrow> s)] G) = Inr G'"
    by (rule add_bom_edges_Inr_Cons) auto
  from s show ?case
    by (rule Cons.IH) (simp add: adj_distinct_add_edge Cons.prems(2))
qed

lemma add_bom_edges_has_edge:
  "add_bom_edges rs G = Inr G' \<Longrightarrow>
   has_edge G' x y \<longleftrightarrow> has_edge G x y \<or> pair_records x y rs \<noteq> []"
proof (induction rs arbitrary: G)
  case Nil
  then show ?case by (simp add: pair_records_def)
next
  case (Cons r rs)
  from Cons.prems(1) obtain a c q where
    r: "Assembly r = Some a" "Component r = Some c" and
    s: "add_bom_edges rs (add_edge a c [(''quantity'', q),
        (''scrap'', case Scrap r of None \<Rightarrow> 0 | Some s \<Rightarrow> s)] G) = Inr G'"
    by (rule add_bom_edges_Inr_Cons) auto
  from Cons.IH [OF s] r show ?case
    by (auto simp add: has_edge_add_edge pair_records_def)
qed

lemma add_bom_edges_quantity:
  "add_bom_edges rs G = Inr G' \<Longrightarrow>
   edge_val G' x y ''quantity'' =
     (if pair_records x y rs = [] then edge_val G x y ''quantity''
      else QuantityPer (last (pair_records x y rs)))"
proof (induction rs arbitrary: G)
  case Nil
  then show ?case by (simp add: pair_records_def)
next
  case (Cons r rs)
  from Cons.prems(1) obtain a c q where
    r: "Assembly r = Some a" "Component r = Some c" "QuantityPer r = Some q" and
    s: "add_bom_edges rs (add_edge a c [(''quantity'', q),
        (''scrap'', case Scrap r of None \<Rightarrow> 0 | Some s \<Rightarrow> s)] G) = Inr G'"
    by (rule add_bom_edges_Inr_Cons) auto
  from Cons.IH [OF s] r show ?case
    by (auto simp add: edge_val_add_edge2 pair_records_def)
qed

lemma add_bom_edges_scrap:
  "add_bom_edges rs G = Inr G' \<Longrightarrow>
   edge_val G' x y ''scrap'' =
     (if pair_records x y rs = [] then edge_val G x y ''scrap''
      else Some (case Scrap (last (pair_records x y rs)) of None \<Rightarrow> 0 | Some s \<Rightarrow> s))"
proof (induction rs arbitrary: G)
  case Nil
  then show ?case by (simp add: pair_records_def)
next
  case (Cons r rs)
  from Cons.prems(1) obtain a c q where
    r: "Assembly r = Some a" "Component r = Some c" "QuantityPer r = Some q" and
    s: "add_bom_edges rs (add_edge a c [(''quantity'', q),
        (''scrap'', case Scrap r of None \<Rightarrow> 0 | Some s \<Rightarrow> s)] G) = Inr G'"
    by (rule add_bom_edges_Inr_Cons) auto
  from Cons.IH [OF s] r show ?case
    by (auto simp add: edge_val_add_edge2 pair_records_def)
qed

lemma add_bom_edges_other:
  "add_bom_edges rs G = Inr G' \<Longrightarrow> key \<noteq> ''quantity'' \<Longrightarrow> key \<noteq> ''scrap'' \<Longrightarrow>
   edge_val G' x y key = edge_val G x y key"
proof (induction rs arbitrary: G)
  case Nil
  then show ?case by simp
next
  case (Cons r rs)
  from Cons.prems(1) obtain a c q where
    s: "add_bom_edges rs (add_edge a c [(''quantity'', q),
        (''scrap'', case Scrap r of None \<Rightarrow> 0 | Some s \<Rightarrow> s)] G) = Inr G'"
    by (rule add_bom_edges_Inr_Cons) auto
  from Cons.IH [OF s Cons.prems(2,3)] Cons.prems(2,3) show ?case
    by (auto simp add: edge_val_add_edge2)
qed

lemma add_bom_edges_missing_quantity:
  "\<forall>r \<in> set rs. Assembly r \<noteq> None \<and> Component r \<noteq> None \<Longrightarrow>
   \<exists>r \<in> set rs. QuantityPer r = None \<Longrightarrow>
   add_bom_edges rs G = Inl (KeyError ''QuantityPer'')"
proof (induction rs arbitrary: G)
  case Nil
  then show ?case by simp
next
  case (Cons r rs)
  show ?case
  proof (cases "QuantityPer r")
    case None
    with Cons.prems(1) show ?thesis by auto
  next
    case (Some q)
    with Cons.prems have "\<exists>r \<in> set rs. QuantityPer r = None" by auto
    with Cons.IH Cons.prems(1) Some show ?thesis by (auto simp add: Let_def)
  qed
qed

lemma collect_roles_keys:
  assumes "collect_roles rs [] = Inr nr"
  shows "map_of nr p = None \<longleftrightarrow> \<not> is_assembly rs p \<and> \<not> is_component rs p"
  using collect_roles_map_of [OF assms, of p] by (auto simp add: role_set_def split: if_splits)

lemma create_Inr:
  assumes "create_product_structure_graph bom_data = Inr G"
  obtains nr where "collect_roles bom_data [] = Inr nr"
    "add_bom_edges bom_data (fold add_typed_node nr DiGraph) = Inr G"
  using assms unfolding create_product_structure_graph_def by (auto split: sum.splits)

lemma product_graph_nodes:
  assumes "create_product_structure_graph bom_data = Inr G"
  shows "map_of (nodes G) p =
     (if is_assembly bom_data p \<and> is_component bom_data p then Some (Some ''subassembly'')
      else if is_assembly bom_data p then Some (Some ''assembly'')
      else if is_component bom_data p then Some (Some ''component'')
      else None)"
proof -
  from assms obtain nr where
    c: "collect_roles bom_data [] = Inr nr" and
    e: "add_bom_edges bom_data (fold add_typed_node nr DiGraph) = Inr G"
    by (rule create_Inr)
  have d: "distinct (map fst nr)"
    using collect_roles_distinct [OF c] by simp
  have "\<forall>r \<in> set bom_data. \<forall>p. Assembly r = Some p \<or> Component r = Some p \<longrightarrow>
      map_of (adj (fold add_typed_node nr DiGraph)) p \<noteq> None"
    using collect_roles_keys [OF c]
    by (auto simp add: fold_add_typed_node_adj is_assembly_def is_component_def)
  with e have "nodes G = nodes (fold add_typed_node nr DiGraph)"
    by (rule add_bom_edges_nodes)
  then have "map_of (nodes G) p =
      (case map_of nr p of None \<Rightarrow> None | Some roles \<Rightarrow> Some (Some (node_type roles)))"
    using d by (simp add: fold_add_typed_node_nodes DiGraph_def split: option.splits)
  then show ?thesis
    using collect_roles_map_of [OF c, of p]
    by (auto simp add: role_set_def node_type_def split: if_splits)
qed

lemma product_graph_keys:
  assumes "create_product_structure_graph bom_data = Inr G"
  shows "distinct (map fst (nodes G))"
proof -
  from assms obtain nr where
    c: "collect_roles bom_data [] = Inr nr" and
    e: "add_bom_edges bom_data (fold add_typed_node nr DiGraph) = Inr G"
    by (rule create_Inr)
  have "\<forall>r \<in> set bom_data. \<forall>p. Assembly r = Some p \<or> Component r = Some p \<longrightarrow>
      map_of (adj (fold add_typed_node nr DiGraph)) p \<noteq> None"
    using collect_roles_keys [OF c]
    by (auto simp add: fold_add_typed_node_adj is_assembly_def is_component_def)
  with e have "nodes G = nodes (fold add_typed_node nr DiGraph)"
    by (rule add_bom_edges_nodes)
  then show ?thesis
    by (simp add: fold_add_typed_node_keys DiGraph_def)
qed

lemma product_graph_distinct:
  assumes "create_product_structure_graph bom_data = Inr G"
  shows "adj_distinct G"
proof -
  from assms obtain nr where
    e: "add_bom_edges bom_data (fold add_typed_node nr DiGraph) = Inr G"
    by (rule create_Inr)
  from e show ?thesis
    by (rule add_bom_edges_distinct) (simp add: fold_add_typed_node_distinct adj_distinct_DiGraph)
qed

section \<open>Claims about the product structure graph\<close>

lemma scenario_A_run: "create_product_structure_graph scenario_A_records = Inr scenario_A_graph"
  by code_simp

lemma scenario_A_reversed_run:
  "create_product_structure_graph (rev scenario_A_records) = Inr scenario_A_reversed_graph"
  by code_simp

lemma scenario_B_run: "create_product_structure_graph scenario_B_records = Inr scenario_B_graph"
  by code_simp

text \<open>
  Claim C2. When \<open>create_product_structure_graph\<close> returns a graph, every part of the
  records has exactly one entry in the node table, with type \<open>subassembly\<close> if it is
  the assembly of some record and the component of some record, \<open>assembly\<close> if it is
  only ever an assembly, \<open>component\<close> if it is only ever a component; no other node
  exists. The types depend on the set of records only: any other list with the same
  records gives the same node types.
\<close>
theorem role_assignment:
  assumes "create_product_structure_graph bom_data = Inr G"
  shows "distinct (map fst (nodes G))
     \<and> (\<forall>p. map_of (nodes G) p =
          (if is_assembly bom_data p \<and> is_component bom_data p then Some (Some ''subassembly'')
           else if is_assembly bom_data p then Some (Some ''assembly'')
           else if is_component bom_data p then Some (Some ''component'')
           else None))
     \<and> (\<forall>bom_data' G'. set bom_data' = set bom_data
            \<and> create_product_structure_graph bom_data' = Inr G'
          \<longrightarrow> map_of (nodes G') = map_of (nodes G))"
proof (intro conjI allI impI)
  show "distinct (map fst (nodes G))"
    using assms by (rule product_graph_keys)
next
  fix p
  show "map_of (nodes G) p =
          (if is_assembly bom_data p \<and> is_component bom_data p then Some (Some ''subassembly'')
           else if is_assembly bom_data p then Some (Some ''assembly'')
           else if is_component bom_data p then Some (Some ''component'')
           else None)"
    using assms by (rule product_graph_nodes)
next
  fix bom_data' G'
  assume a: "set bom_data' = set bom_data \<and> create_product_structure_graph bom_data' = Inr G'"
  then have s: "is_assembly bom_data' = is_assembly bom_data" "is_component bom_data' = is_component bom_data"
    by (simp_all add: is_assembly_def is_component_def fun_eq_iff)
  show "map_of (nodes G') = map_of (nodes G)"
  proof
    fix p
    from a have "create_product_structure_graph bom_data' = Inr G'" by simp
    from product_graph_nodes [OF this, of p] product_graph_nodes [OF assms, of p] s
    show "map_of (nodes G') p = map_of (nodes G) p" by simp
  qed
qed

theorem role_assignment_witness:
  "create_product_structure_graph scenario_A_records = Inr scenario_A_graph
   \<and> create_product_structure_graph (rev scenario_A_records) = Inr scenario_A_reversed_graph
   \<and> set (rev scenario_A_records) = set scenario_A_records
   \<and> map_of (nodes scenario_A_graph) ''A'' = Some (Some ''assembly'')
   \<and> map_of (nodes scenario_A_graph) ''B'' = Some (Some ''subassembly'')
   \<and> map_of (nodes scenario_A_graph) ''C'' = Some (Some ''component'')
   \<and> map_of (nodes scenario_A_graph) ''D'' = Some (Some ''component'')
   \<and> map_of (nodes scenario_A_reversed_graph) = map_of (nodes scenario_A_graph)"
proof -
  have s: "set (rev scenario_A_records) = set scenario_A_records"
    by simp
  have r: "is_assembly scenario_A_records ''A''" "\<not> is_component scenario_A_records ''A''"
    "is_assembly scenario_A_records ''B''" "is_component scenario_A_records ''B''"
    "\<not> is_assembly scenario_A_records ''C''" "is_component scenario_A_records ''C''"
    "\<not> is_assembly scenario_A_records ''D''" "is_component scenario_A_records ''D''"
    by (simp_all add: is_assembly_def is_component_def scenario_A_records_def)
  note t = role_assignment [OF scenario_A_run]
  from t have n: "\<forall>p. map_of (nodes scenario_A_graph) p =
          (if is_assembly scenario_A_records p \<and> is_component scenario_A_records p
           then Some (Some ''subassembly'')
           else if is_assembly scenario_A_records p then Some (Some ''assembly'')
           else if is_component scenario_A_records p then Some (Some ''component'')
           else None)"
    by blast
  from t s scenario_A_reversed_run
  have o: "map_of (nodes scenario_A_reversed_graph) = map_of (nodes scenario_A_graph)"
    by blast
  from scenario_A_run scenario_A_reversed_run s n r o show ?thesis
    by simp
qed

text \<open>
  Claim C3. The returned graph has exactly one edge per (assembly, component) pair that
  occurs in the records, no edge twice and no other edge, and the edge carries the
  quantity and the scrap (0 when the record has none) of the last record of its pair, and
  no other attribute. The witness is scenario B: records (A,B,2,0.1), (A,B,5,0.2) give the
  single edge (A,B) with quantity 5 and scrap 0.2.
\<close>
theorem one_edge_per_pair_last_wins:
  assumes "create_product_structure_graph bom_data = Inr G"
  shows "distinct (edges G)
     \<and> (\<forall>a c. (a, c) \<in> set (edges G) \<longleftrightarrow> pair_records a c bom_data \<noteq> [])
     \<and> (\<forall>a c. pair_records a c bom_data \<noteq> [] \<longrightarrow>
           edge_val G a c ''quantity'' = QuantityPer (last (pair_records a c bom_data))
         \<and> edge_val G a c ''scrap'' =
             Some (case Scrap (last (pair_records a c bom_data)) of None \<Rightarrow> 0 | Some s \<Rightarrow> s)
         \<and> (\<forall>key. key \<noteq> ''quantity'' \<and> key \<noteq> ''scrap'' \<longrightarrow> edge_val G a c key = None))"
proof -
  from assms obtain nr where
    e: "add_bom_edges bom_data (fold add_typed_node nr DiGraph) = Inr G"
    by (rule create_Inr)
  have d: "adj_distinct G"
    using assms by (rule product_graph_distinct)
  have n: "edge_attr (fold add_typed_node nr DiGraph) a c = None" for a c
    by (simp add: fold_add_typed_node_edge_attr edge_attr_DiGraph)
  have 1: "distinct (edges G)"
    using d by (rule distinct_edges)
  have 2: "(a, c) \<in> set (edges G) \<longleftrightarrow> pair_records a c bom_data \<noteq> []" for a c
    using add_bom_edges_has_edge [OF e, of a c] n [of a c]
    by (simp add: set_edges [OF d] has_edge_def)
  have 3: "edge_val G a c ''quantity'' = QuantityPer (last (pair_records a c bom_data))"
    if "pair_records a c bom_data \<noteq> []" for a c
    using add_bom_edges_quantity [OF e, of a c] that by simp
  have 4: "edge_val G a c ''scrap'' =
             Some (case Scrap (last (pair_records a c bom_data)) of None \<Rightarrow> 0 | Some s \<Rightarrow> s)"
    if "pair_records a c bom_data \<noteq> []" for a c
    using add_bom_edges_scrap [OF e, of a c] that by simp
  have 5: "edge_val G a c key = None" if "key \<noteq> ''quantity'' \<and> key \<noteq> ''scrap''" for a c key
    using add_bom_edges_other [OF e, of key a c] that n [of a c] by (simp add: edge_val_def)
  from 1 2 3 4 5 show ?thesis by blast
qed

theorem one_edge_per_pair_last_wins_witness:
  "create_product_structure_graph scenario_B_records = Inr scenario_B_graph
   \<and> pair_records ''A'' ''B'' scenario_B_records = scenario_B_records
   \<and> edges scenario_B_graph = [(''A'', ''B'')]
   \<and> edge_val scenario_B_graph ''A'' ''B'' ''quantity'' = Some 5
   \<and> edge_val scenario_B_graph ''A'' ''B'' ''scrap'' = Some (2/10)"
proof -
  have p: "pair_records ''A'' ''B'' scenario_B_records = scenario_B_records"
    by (simp add: pair_records_def scenario_B_records_def)
  then have ne: "pair_records ''A'' ''B'' scenario_B_records \<noteq> []"
    by (simp add: scenario_B_records_def)
  from one_edge_per_pair_last_wins [OF scenario_B_run] ne
  have "edge_val scenario_B_graph ''A'' ''B'' ''quantity''
        = QuantityPer (last (pair_records ''A'' ''B'' scenario_B_records))
      \<and> edge_val scenario_B_graph ''A'' ''B'' ''scrap''
        = Some (case Scrap (last (pair_records ''A'' ''B'' scenario_B_records)) of
                  None \<Rightarrow> 0 | Some s \<Rightarrow> s)"
    by blast
  then have "edge_val scenario_B_graph ''A'' ''B'' ''quantity'' = Some 5
      \<and> edge_val scenario_B_graph ''A'' ''B'' ''scrap'' = Some (2/10)"
    unfolding p by (simp add: scenario_B_records_def)
  moreover have "edges scenario_B_graph = [(''A'', ''B'')]"
    by (simp add: edges_def scenario_B_graph_def)
  ultimately show ?thesis
    using scenario_B_run p by simp
qed

text \<open>
  Claim C8. A record list with a record that lacks \<open>Assembly\<close> or \<open>Component\<close>
  makes \<open>create_product_structure_graph\<close> fail with the \<open>KeyError\<close> of the missing
  field; the failure is raised by the first pass, before the graph is touched, and the
  result is the error, not a graph. The empty record list gives the empty graph.
\<close>
theorem missing_part_field_fails:
  "((\<exists>r \<in> set bom_data. Assembly r = None \<or> Component r = None) \<longrightarrow>
      (\<exists>e. collect_roles bom_data [] = Inl e
          \<and> create_product_structure_graph bom_data = Inl e
          \<and> (e = KeyError ''Assembly'' \<or> e = KeyError ''Component'')))
   \<and> create_product_structure_graph [] = Inr \<lparr>nodes = [], adj = []\<rparr>
   \<and> edges (\<lparr>nodes = [], adj = []\<rparr> :: (string, rat) digraph) = []"
proof (intro conjI impI)
  assume a: "\<exists>r \<in> set bom_data. Assembly r = None \<or> Component r = None"
  have "\<not> (\<exists>nr'. collect_roles bom_data [] = Inr nr')"
    using a unfolding collect_roles_succeeds by blast
  then obtain e where e: "collect_roles bom_data [] = Inl e"
    by (cases "collect_roles bom_data []") auto
  from collect_roles_fails [OF e] e
  show "\<exists>e. collect_roles bom_data [] = Inl e
          \<and> create_product_structure_graph bom_data = Inl e
          \<and> (e = KeyError ''Assembly'' \<or> e = KeyError ''Component'')"
    by (simp add: create_product_structure_graph_def)
next
  show "create_product_structure_graph [] = Inr \<lparr>nodes = [], adj = []\<rparr>"
    by (simp add: create_product_structure_graph_def DiGraph_def)
next
  show "edges (\<lparr>nodes = [], adj = []\<rparr> :: (string, rat) digraph) = []"
    by (simp add: edges_def)
qed

theorem missing_part_field_fails_witness:
  "create_product_structure_graph
     [\<lparr>Assembly = Some ''A'', Component = Some ''B'', QuantityPer = Some 2, Scrap = None\<rparr>,
      \<lparr>Assembly = Some ''B'', Component = None, QuantityPer = Some 1, Scrap = None\<rparr>]
   = Inl (KeyError ''Component'')"
proof -
  let ?recs = "[\<lparr>Assembly = Some ''A'', Component = Some ''B'', QuantityPer = Some 2, Scrap = None\<rparr>,
      \<lparr>Assembly = Some ''B'', Component = None, QuantityPer = Some 1, Scrap = None\<rparr>]"
  have h: "\<exists>r \<in> set ?recs. Assembly r = None \<or> Component r = None"
    by simp
  from missing_part_field_fails [of ?recs] h
  obtain e where "collect_roles ?recs [] = Inl e" "create_product_structure_graph ?recs = Inl e"
    by blast
  then show ?thesis
    by (simp add: add_role_def Let_def)
qed

text \<open>
  Claim C10. A record list whose records all name their assembly and component, one of
  them with no \<open>QuantityPer\<close>, makes \<open>create_product_structure_graph\<close> fail with
  \<open>KeyError QuantityPer\<close>: the first pass succeeds with the roles of all records, the
  edge pass raises. A record with no \<open>Scrap\<close> is accepted, with scrap 0.
\<close>
theorem missing_quantity_fails_in_edge_pass:
  assumes "\<forall>r \<in> set bom_data. Assembly r \<noteq> None \<and> Component r \<noteq> None"
    and "\<exists>r \<in> set bom_data. QuantityPer r = None"
  shows "(\<exists>node_roles. collect_roles bom_data [] = Inr node_roles
           \<and> add_bom_edges bom_data (fold add_typed_node node_roles DiGraph)
               = Inl (KeyError ''QuantityPer''))
     \<and> create_product_structure_graph bom_data = Inl (KeyError ''QuantityPer'')
     \<and> create_product_structure_graph
         [\<lparr>Assembly = Some ''A'', Component = Some ''B'', QuantityPer = Some 2, Scrap = None\<rparr>]
       = Inr \<lparr>nodes = [(''A'', Some ''assembly''), (''B'', Some ''component'')],
              adj = [(''A'', [(''B'', [(''quantity'', 2), (''scrap'', 0)])]), (''B'', [])]\<rparr>"
proof -
  from assms(1) obtain nr where c: "collect_roles bom_data [] = Inr nr"
    using collect_roles_succeeds [of bom_data "[]"] by blast
  have e: "add_bom_edges bom_data G = Inl (KeyError ''QuantityPer'')" for G
    using assms by (rule add_bom_edges_missing_quantity)
  have "create_product_structure_graph
         [\<lparr>Assembly = Some ''A'', Component = Some ''B'', QuantityPer = Some 2, Scrap = None\<rparr>]
       = Inr \<lparr>nodes = [(''A'', Some ''assembly''), (''B'', Some ''component'')],
              adj = [(''A'', [(''B'', [(''quantity'', 2), (''scrap'', 0)])]), (''B'', [])]\<rparr>"
    by (simp add: create_product_structure_graph_def add_role_def Let_def add_typed_node_def
        add_node_def add_edge_def touch_node_def dict_update_def DiGraph_def)
  with c e show ?thesis
    by (simp add: create_product_structure_graph_def)
qed

theorem missing_quantity_fails_in_edge_pass_witness:
  "create_product_structure_graph
     [\<lparr>Assembly = Some ''A'', Component = Some ''B'', QuantityPer = None, Scrap = Some (1/10)\<rparr>]
   = Inl (KeyError ''QuantityPer'')
   \<and> collect_roles
       [\<lparr>Assembly = Some ''A'', Component = Some ''B'', QuantityPer = None, Scrap = Some (1/10)\<rparr>] []
     = Inr [(''A'', {''assembly''}), (''B'', {''component''})]"
proof -
  let ?recs = "[\<lparr>Assembly = Some ''A'', Component = Some ''B'', QuantityPer = None, Scrap = Some (1/10)\<rparr>]"
  have h1: "\<forall>r \<in> set ?recs. Assembly r \<noteq> None \<and> Component r \<noteq> None" by simp
  have h2: "\<exists>r \<in> set ?recs. QuantityPer r = None" by simp
  from missing_quantity_fails_in_edge_pass [OF h1 h2]
  have "create_product_structure_graph ?recs = Inl (KeyError ''QuantityPer'')" by blast
  then show ?thesis by (simp add: add_role_def Let_def)
qed

section \<open>The key of a time-space node determines its node and time\<close>




















section \<open>Sorting and the node table\<close>



















section \<open>The edge stages as lists of insertions\<close>

















section \<open>The edges after a list of insertions; the groups\<close>













section \<open>A run of \<open>create_time_space_network\<close>\<close>





























section \<open>Consecutive pairs and the first later element of a sorted list\<close>





section \<open>The edges of a returned network\<close>












lemma product_graph_edge_ends:
  assumes "create_product_structure_graph bom_data = Inr G"
  shows "edge_ends_are_nodes G"
  unfolding edge_ends_are_nodes_def
proof
  fix e assume e: "e \<in> set (edges G)"
  obtain a c where ac: "e = (a, c)" by (cases e)
  from assms obtain nr where
    b: "add_bom_edges bom_data (fold add_typed_node nr DiGraph) = Inr G"
    by (rule create_Inr)
  have "has_edge G a c"
    using e ac set_edges [OF product_graph_distinct [OF assms]] by simp
  then have "pair_records a c bom_data \<noteq> []"
    using add_bom_edges_has_edge [OF b, of a c]
    by (simp add: has_edge_def fold_add_typed_node_edge_attr edge_attr_DiGraph)
  then obtain r where "r \<in> set bom_data" "Assembly r = Some a" "Component r = Some c"
    unfolding pair_records_def by (auto simp add: filter_empty_conv)
  then have "is_assembly bom_data a" "is_component bom_data c"
    unfolding is_assembly_def is_component_def by blast+
  then show "map_of (nodes G) (fst e) \<noteq> None \<and> map_of (nodes G) (snd e) \<noteq> None"
    unfolding ac product_graph_nodes [OF assms] by simp
qed

section \<open>Claims about the time-space network\<close>








text \<open>
  Claim C7 does not hold of the code, by a slip of the causal loop. The source creates
  the chronological edges with \<open>lead_time\<close> only and announces the causal edges as
  edges \<open>between related nodes at different original nodes\<close>, but its loop over the
  edges of the product graph does not skip an edge (u, u). The record (A, A) gives a product
  graph with the self-loop (A, A). With the events (A, 0), (A, 5) the causal search from
  A_0 then runs in A's own group and finds A_5, and \<open>add_edge\<close> merges
  \<open>relationship\<close> into the chronological edge from A_0 to A_5: an edge between two
  consecutive time-space nodes of the same original node carries
  \<open>relationship = assembly-component\<close>.
\<close>
theorem self_loop_marks_chronological_edge:
  "create_product_structure_graph
     [\<lparr>Assembly = Some ''A'', Component = Some ''A'', QuantityPer = Some 1, Scrap = None\<rparr>]
   = Inr \<lparr>nodes = [(''A'', Some ''subassembly'')],
         adj = [(''A'', [(''A'', [(''quantity'', 1), (''scrap'', 0)])])]\<rparr>
   \<and> create_time_space_network
       \<lparr>nodes = [(''A'', Some ''subassembly'')],
         adj = [(''A'', [(''A'', [(''quantity'', 1), (''scrap'', 0)])])]\<rparr>
       [\<lparr>node = Some ''A'', time = Some (PyInt 0), event_type = Some ''start''\<rparr>,
        \<lparr>node = Some ''A'', time = Some (PyInt 5), event_type = Some ''complete''\<rparr>]
   = Inr \<lparr>nodes = [(''A_0'', Some \<lparr>original_node = ''A'', node_time = PyInt 0, node_event_type = ''start''\<rparr>),
                  (''A_5'', Some \<lparr>original_node = ''A'', node_time = PyInt 5, node_event_type = ''complete''\<rparr>)],
         adj = [(''A_0'', [(''A_5'', [(''lead_time'', Num 5),
                                      (''relationship'', Str ''assembly-component'')])]),
                (''A_5'', [])]\<rparr>
   \<and> chain
        \<lparr>nodes = [(''A_0'', Some \<lparr>original_node = ''A'', node_time = PyInt 0, node_event_type = ''start''\<rparr>),
                  (''A_5'', Some \<lparr>original_node = ''A'', node_time = PyInt 5, node_event_type = ''complete''\<rparr>)],
         adj = [(''A_0'', [(''A_5'', [(''lead_time'', Num 5),
                                      (''relationship'', Str ''assembly-component'')])]),
                (''A_5'', [])]\<rparr>
        ''A'' = [''A_0'', ''A_5'']
   \<and> edge_val
        \<lparr>nodes = [(''A_0'', Some \<lparr>original_node = ''A'', node_time = PyInt 0, node_event_type = ''start''\<rparr>),
                  (''A_5'', Some \<lparr>original_node = ''A'', node_time = PyInt 5, node_event_type = ''complete''\<rparr>)],
         adj = [(''A_0'', [(''A_5'', [(''lead_time'', Num 5),
                                      (''relationship'', Str ''assembly-component'')])]),
                (''A_5'', [])]\<rparr>
        ''A_0'' ''A_5'' ''relationship'' = Some (Str ''assembly-component'')"
  by code_simp

















end
